theory Spec2Isabelle
  imports Main
begin

section \<open>Files, fields and tables\<close>

text \<open>
  The pipeline of \<^verbatim>\<open>ETL_toll_data.py\<close> works on text files in one directory. A file is
  the list of its lines (without the line terminators), the file system maps a path to
  the file stored there. A table is a list of rows of fields; the empty field stands
  for a missing value (pandas' NaN).

  pandas is modelled as far as the steps use it, with the defaults of pandas 2.
  \<^verbatim>\<open>read_csv\<close> with \<^verbatim>\<open>header=None\<close>:
  a missing file, a file without rows, the first row fixing the number of columns, rows
  that are too long or too short, blank lines, and the tokens that are read as missing
  values. The type that pandas infers for a column is computed from the fields of the
  column where it is needed: a column that holds a field which cannot be a number, a
  boolean or a missing value is a column of strings, written back as it is; a column of
  integers is written in canonical decimal form, or as floats when it has a missing
  value; a column of missing values only is a float column. What pandas does with any
  other column (floats, booleans, large integers) is a parameter of the embedding, as is
  \<^verbatim>\<open>str.upper\<close> on text that is not ASCII. Since a table is kept as text, \<^verbatim>\<open>to_csv\<close>
  is told where each column comes from: from \<^verbatim>\<open>read_csv\<close>, from \<^verbatim>\<open>concat\<close> with missing
  values appended, or from \<^verbatim>\<open>.str.upper()\<close>. \<^verbatim>\<open>to_csv\<close> quotes a field that holds a
  comma, a double quote or a line break.

  Outside the embedding: the reader side of quoting (a double quote in an input file is
  an ordinary character) and carriage returns in lines; the theorems about the content
  of files assume input files without them. Failures of the storage itself are not
  modelled: a file is present or absent.
\<close>

type_synonym path = string
type_synonym line = string
type_synonym text_file = "line list"
type_synonym filesystem = "path \<rightharpoonup> text_file"
type_synonym cell = string
type_synonym row = "cell list"
type_synonym dataframe = "row list"

datatype error =
    FileNotFoundError path
  | EmptyDataError
  | ParserError nat
  | KeyError nat
  | AttributeError
  | BashCommandFailed

text \<open>
  Where a column of a table comes from: \<open>Parsed\<close>, it is as \<^verbatim>\<open>read_csv\<close> read it;
  \<open>Reindexed k\<close>, it is a column that \<^verbatim>\<open>read_csv\<close> read and to which \<^verbatim>\<open>concat\<close> appended
  \<open>k\<close> missing values; \<open>Strings\<close>, it is the result of \<^verbatim>\<open>.str.upper()\<close>, a column of
  strings and missing values.
\<close>

datatype origin = Parsed | Reindexed nat | Strings

text \<open>
  The part of pandas that the embedding leaves open. \<open>other_text og col f\<close> is the text
  that \<^verbatim>\<open>to_csv\<close> writes for the field \<open>f\<close> of a column of origin \<open>og\<close> with the fields
  \<open>col\<close> that is neither a column of strings, nor of integers, nor of missing values
  only; \<open>other_upper col\<close> is what \<^verbatim>\<open>.str.upper()\<close> does on such a column (\<open>None\<close> when
  the accessor raises); \<open>unicode_upper\<close> is \<^verbatim>\<open>str.upper\<close> on text that is not ASCII.
\<close>

record pandas =
  other_text :: "origin \<Rightarrow> string list \<Rightarrow> string \<Rightarrow> string"
  other_upper :: "string list \<Rightarrow> (string \<Rightarrow> string) option"
  unicode_upper :: "string \<Rightarrow> string"

text \<open>What the two shell steps get from outside: the body that \<^verbatim>\<open>curl\<close> retrieves
  (\<open>None\<close> when the transfer fails), and the members, name and content, that \<^verbatim>\<open>tar\<close>
  finds in an archive (\<open>None\<close> when it is not an archive).\<close>

record environment =
  fetched :: "string list option"
  members :: "string list \<Rightarrow> (string \<times> string list) list option"

definition address :: path where
  "address = ''~/airflow/dags/toll_project/''"

definition tolldata_tgz :: path where
  "tolldata_tgz = address @ ''tolldata.tgz''"

definition vehicle_data :: path where
  "vehicle_data = address @ ''vehicle-data.csv''"

definition tollplaza_data :: path where
  "tollplaza_data = address @ ''tollplaza-data.tsv''"

definition payment_data :: path where
  "payment_data = address @ ''payment-data.txt''"

definition csv_data :: path where
  "csv_data = address @ ''csv_data.csv''"

definition tsv_data :: path where
  "tsv_data = address @ ''tsv_data.csv''"

definition fixed_width_data :: path where
  "fixed_width_data = address @ ''fixed_width_data.csv''"

definition extracted_data :: path where
  "extracted_data = address @ ''extracted_data.csv''"

definition transformed_data :: path where
  "transformed_data = address @ ''transformed_data.csv''"

subsection \<open>Delimited lines\<close>

text \<open>Splitting a line at every occurrence of the separator; a line with \<open>k\<close>
  separators has \<open>k + 1\<close> fields. A character that is not the separator goes in
  front of the first field of the rest of the line (there always is one).\<close>

fun split_on :: "char \<Rightarrow> line \<Rightarrow> row" where
  "split_on sep [] = [[]]"
| "split_on sep (c # cs) =
     (if c = sep then [] # split_on sep cs
      else (case split_on sep cs of
              f # fs \<Rightarrow> (c # f) # fs
            | [] \<Rightarrow> [[c]]))"

text \<open>Writing a row: the fields joined by the separator.\<close>

fun join_with :: "char \<Rightarrow> row \<Rightarrow> line" where
  "join_with sep [] = []"
| "join_with sep [f] = f"
| "join_with sep (f # g # fs) = f @ sep # join_with sep (g # fs)"

text \<open>\<^verbatim>\<open>read_csv\<close> skips blank lines (\<^verbatim>\<open>skip_blank_lines=True\<close>): the empty line, and a
  line of spaces and tabs only, unless the tab is the separator.\<close>

definition blank_line :: "char \<Rightarrow> line \<Rightarrow> bool" where
  "blank_line sep l =
     list_all (\<lambda>c. (c = CHR '' '' \<or> c = CHR 0x09) \<and> c \<noteq> sep) l"

definition rows_of :: "char \<Rightarrow> text_file \<Rightarrow> row list" where
  "rows_of sep ls = map (split_on sep) (filter (\<lambda>l. \<not> blank_line sep l) ls)"

subsection \<open>The operations of pandas that the pipeline calls\<close>

definition width :: "dataframe \<Rightarrow> nat" where
  "width df = (case df of [] \<Rightarrow> 0 | r # _ \<Rightarrow> length r)"

definition pad_row :: "nat \<Rightarrow> row \<Rightarrow> row" where
  "pad_row w r = r @ replicate (w - length r) []"

text \<open>The fields that \<^verbatim>\<open>read_csv\<close> reads as a missing value (its default
  \<^verbatim>\<open>na_values\<close>; \<^verbatim>\<open>None\<close> is one of them since pandas 2.0).\<close>

definition na_values :: "cell list" where
  "na_values =
     [[], ''#N/A'', ''#N/A N/A'', ''#NA'', ''-1.#IND'', ''-1.#QNAN'', ''-NaN'', ''-nan'',
      ''1.#IND'', ''1.#QNAN'', ''<NA>'', ''N/A'', ''NA'', ''NULL'', ''NaN'', ''None'',
      ''n/a'', ''nan'', ''null'']"

definition na_filter :: "cell \<Rightarrow> cell" where
  "na_filter f = (if f \<in> set na_values then [] else f)"

text \<open>
  \<^verbatim>\<open>pd.read_csv(path, sep=sep, header=None)\<close>: a missing file raises, a file without
  rows raises, the first row fixes the number of columns, a later row with more
  fields raises (the error names the number of fields expected), a shorter
  row is filled up with missing values, and a field that is one of the
  \<^verbatim>\<open>na_values\<close> is read as missing.
\<close>

definition read_csv :: "filesystem \<Rightarrow> path \<Rightarrow> char \<Rightarrow> error + dataframe" where
  "read_csv fs p sep =
     (case fs p of
        None \<Rightarrow> Inl (FileNotFoundError p)
      | Some ls \<Rightarrow>
          (case rows_of sep ls of
             [] \<Rightarrow> Inl EmptyDataError
           | r # rs \<Rightarrow>
               if list_ex (\<lambda>r'. length r < length r') rs then Inl (ParserError (length r))
               else Inr (map (\<lambda>r'. map na_filter (pad_row (length r) r')) (r # rs))))"

subsection \<open>The type of a column\<close>

text \<open>\<^verbatim>\<open>str.upper\<close> on a character of ASCII.\<close>

definition upper_char :: "char \<Rightarrow> char" where
  "upper_char c =
     (let n = (of_char c :: nat) in if 97 \<le> n \<and> n \<le> 122 then char_of (n - 32) else c)"

text \<open>
  The characters that the text of a number or of a boolean can hold, in either case:
  digits, signs, the point, white space, and the letters of \<^verbatim>\<open>e\<close>, \<^verbatim>\<open>inf\<close>,
  \<^verbatim>\<open>infinity\<close>, \<^verbatim>\<open>nan\<close>, \<^verbatim>\<open>true\<close> and \<^verbatim>\<open>false\<close>. A field with any other character
  is text for certain, and so is every field of its column: the column has the type
  \<^verbatim>\<open>object\<close>, its fields are strings or missing.
\<close>

definition numeric_char :: "char \<Rightarrow> bool" where
  "numeric_char c =
     (upper_char c \<in> set ''0123456789+-._ AEFILNRSTUY''
      \<or> upper_char c \<in> {CHR 0x09, CHR 0x0A, CHR 0x0B, CHR 0x0C, CHR 0x0D})"

definition text_field :: "cell \<Rightarrow> bool" where
  "text_field f = list_ex (\<lambda>c. \<not> numeric_char c) f"

definition text_column :: "cell list \<Rightarrow> bool" where
  "text_column col = list_ex text_field col"

definition all_missing :: "cell list \<Rightarrow> bool" where
  "all_missing col = list_all (\<lambda>f. f = []) col"

text \<open>Integers in decimal notation, with at most 15 significant digits (they are exact
  as 64-bit integers and as floats, and floats of that size are written without an
  exponent); a zero with a minus sign is left to the parameter.\<close>

definition digit :: "char \<Rightarrow> bool" where
  "digit c = (c \<in> set ''0123456789'')"

definition negative :: "cell \<Rightarrow> bool" where
  "negative f = (case f of [] \<Rightarrow> False | c # _ \<Rightarrow> c = CHR ''-'')"

definition int_digits :: "cell \<Rightarrow> string" where
  "int_digits f = (if negative f then tl f else f)"

definition significant :: "cell \<Rightarrow> string" where
  "significant f = dropWhile (\<lambda>c. c = CHR ''0'') (int_digits f)"

definition small_int :: "cell \<Rightarrow> bool" where
  "small_int f =
     (int_digits f \<noteq> [] \<and> list_all digit (int_digits f) \<and> length (significant f) \<le> 15
      \<and> \<not> (negative f \<and> significant f = []))"

definition int_column :: "cell list \<Rightarrow> bool" where
  "int_column col = (\<not> all_missing col \<and> list_all (\<lambda>f. f = [] \<or> small_int f) col)"

text \<open>The text of a 64-bit integer (\<^verbatim>\<open>str(int(f))\<close>) and of the float of the same value
  (\<^verbatim>\<open>str(float(f))\<close>).\<close>

definition int_text :: "cell \<Rightarrow> cell" where
  "int_text f =
     (if significant f = [] then ''0''
      else if negative f then CHR ''-'' # significant f else significant f)"

definition float_text :: "cell \<Rightarrow> cell" where
  "float_text f = int_text f @ ''.0''"

text \<open>
  The text that \<^verbatim>\<open>to_csv\<close> writes for a field \<open>f\<close> of a column of origin \<open>og\<close> with the
  fields \<open>col\<close>. A missing value is written as the empty field, a string as it is. A
  column of integers without a missing value has the type \<^verbatim>\<open>int64\<close>, with one it has
  the type \<^verbatim>\<open>float64\<close>, whether the missing value was read or appended. The text of a
  number or a boolean holds no comma, double quote or line break.
\<close>

definition quoting_char :: "char \<Rightarrow> bool" where
  "quoting_char c = (c \<in> {CHR '','', CHR 0x22, CHR 0x0A, CHR 0x0D})"

definition render_cell :: "pandas \<Rightarrow> origin \<Rightarrow> cell list \<Rightarrow> cell \<Rightarrow> cell" where
  "render_cell P og col f =
     (if f = [] then []
      else if og = Strings \<or> text_column col then f
      else if int_column col then (if [] \<in> set col then float_text f else int_text f)
      else filter (\<lambda>c. \<not> quoting_char c) (other_text P og col f))"

definition column :: "dataframe \<Rightarrow> nat \<Rightarrow> cell list" where
  "column df j = map (\<lambda>r. r ! j) df"

definition render :: "pandas \<Rightarrow> (nat \<Rightarrow> origin) \<Rightarrow> dataframe \<Rightarrow> dataframe" where
  "render P ogs df =
     map (\<lambda>r. map (\<lambda>j. render_cell P (ogs j) (column df j) (r ! j)) [0 ..< length r]) df"

text \<open>
  \<^verbatim>\<open>df.to_csv(path, index=False, header=False)\<close>: one line per row, the fields
  joined by commas (the default separator); a field that holds a comma, a double quote
  or a line break is put in double quotes, with its double quotes doubled, and a row
  that is one empty field is written as two double quotes. The file at \<open>path\<close> is
  created or replaced.
\<close>

definition quote_field :: "cell \<Rightarrow> string" where
  "quote_field f =
     (if list_ex quoting_char f
      then CHR 0x22 # concat (map (\<lambda>c. if c = CHR 0x22 then [c, c] else [c]) f) @ [CHR 0x22]
      else f)"

definition write_row :: "row \<Rightarrow> line" where
  "write_row r =
     (if r = [[]] then [CHR 0x22, CHR 0x22] else join_with CHR '','' (map quote_field r))"

definition to_csv ::
  "pandas \<Rightarrow> (nat \<Rightarrow> origin) \<Rightarrow> filesystem \<Rightarrow> path \<Rightarrow> dataframe \<Rightarrow> error + filesystem" where
  "to_csv P ogs fs p df = Inr (fs(p \<mapsto> map write_row (render P ogs df)))"

definition parsed :: "nat \<Rightarrow> origin" where
  "parsed j = Parsed"

text \<open>\<^verbatim>\<open>df[[i, j, ...]]\<close>: the columns with these labels, in this order; a label that
  is not a column raises \<^verbatim>\<open>KeyError\<close>.\<close>

definition select_columns :: "dataframe \<Rightarrow> nat list \<Rightarrow> error + dataframe" where
  "select_columns df cols =
     (case filter (\<lambda>c. width df \<le> c) cols of
        c # _ \<Rightarrow> Inl (KeyError c)
      | [] \<Rightarrow> Inr (map (\<lambda>r. map (\<lambda>c. r ! c) cols) df))"

text \<open>
  \<^verbatim>\<open>pd.concat(frames, axis=1)\<close> joins the frames on their row labels, which after
  \<^verbatim>\<open>read_csv\<close> are the positions \<open>0, 1, ...\<close>: the result has as many rows as the
  longest frame, and a frame that has no row at a position contributes missing
  values for each of its columns.
\<close>

definition row_at :: "dataframe \<Rightarrow> nat \<Rightarrow> row" where
  "row_at df i = (if i < length df then df ! i else replicate (width df) [])"

definition concat_axis1 :: "dataframe list \<Rightarrow> dataframe" where
  "concat_axis1 dfs =
     map (\<lambda>i. concat (map (\<lambda>df. row_at df i) dfs))
       [0 ..< fold max (map length dfs) 0]"

text \<open>The origin of column \<open>j\<close> of the result, which has \<open>m\<close> rows: the frame that the
  column belongs to got \<open>m - length df\<close> missing values appended.\<close>

fun reindexed :: "nat \<Rightarrow> dataframe list \<Rightarrow> nat \<Rightarrow> origin" where
  "reindexed m [] j = Parsed"
| "reindexed m (df # dfs) j =
     (if j < width df then (if length df < m then Reindexed (m - length df) else Parsed)
      else reindexed m dfs (j - width df))"

definition concat_origins :: "dataframe list \<Rightarrow> nat \<Rightarrow> origin" where
  "concat_origins dfs = reindexed (fold max (map length dfs) 0) dfs"

text \<open>\<^verbatim>\<open>str.upper\<close>: on ASCII text the letters \<^verbatim>\<open>a\<close> to \<^verbatim>\<open>z\<close> become \<^verbatim>\<open>A\<close> to
  \<^verbatim>\<open>Z\<close>.\<close>

definition ascii :: "string \<Rightarrow> bool" where
  "ascii s = list_all (\<lambda>c. (of_char c :: nat) < 128) s"

definition str_upper :: "pandas \<Rightarrow> cell \<Rightarrow> cell" where
  "str_upper P s = (if ascii s then map upper_char s else unicode_upper P s)"

text \<open>
  \<^verbatim>\<open>df[c] = df[c].str.upper()\<close>: reading the column raises \<^verbatim>\<open>KeyError\<close> when the frame
  has no column \<open>c\<close>; the accessor \<^verbatim>\<open>.str\<close> raises \<^verbatim>\<open>AttributeError\<close> on a column that
  does not hold strings, as a column of integers and a column of missing values only.
  On a column of strings every string is upper-cased and a missing value stays missing;
  the new column is a column of strings.
\<close>

definition upper_column :: "pandas \<Rightarrow> nat \<Rightarrow> dataframe \<Rightarrow> error + dataframe" where
  "upper_column P c df =
     (if width df \<le> c then Inl (KeyError c)
      else if text_column (column df c)
        then Inr (map (\<lambda>r. r[c := (if r ! c = [] then [] else str_upper P (r ! c))]) df)
      else if all_missing (column df c) \<or> int_column (column df c) then Inl AttributeError
      else (case other_upper P (column df c) of
              None \<Rightarrow> Inl AttributeError
            | Some g \<Rightarrow> Inr (map (\<lambda>r. r[c := g (r ! c)]) df)))"

section \<open>The steps of the pipeline\<close>

definition extracting_csv :: "pandas \<Rightarrow> filesystem \<Rightarrow> error + filesystem" where
  "extracting_csv P fs =
     (case read_csv fs vehicle_data CHR '','' of
        Inl e \<Rightarrow> Inl e
      | Inr df \<Rightarrow>
          (case select_columns df [0, 1, 2, 3] of
             Inl e \<Rightarrow> Inl e
           | Inr csv \<Rightarrow> to_csv P parsed fs csv_data csv))"

definition extracting_tsv :: "pandas \<Rightarrow> filesystem \<Rightarrow> error + filesystem" where
  "extracting_tsv P fs =
     (case read_csv fs tollplaza_data CHR 0x09 of
        Inl e \<Rightarrow> Inl e
      | Inr df \<Rightarrow>
          (case select_columns df [4, 5, 6] of
             Inl e \<Rightarrow> Inl e
           | Inr tsv \<Rightarrow> to_csv P parsed fs tsv_data tsv))"

definition consolidating :: "pandas \<Rightarrow> filesystem \<Rightarrow> error + filesystem" where
  "consolidating P fs =
     (case read_csv fs csv_data CHR '','' of
        Inl e \<Rightarrow> Inl e
      | Inr csv \<Rightarrow>
          (case read_csv fs tsv_data CHR '','' of
             Inl e \<Rightarrow> Inl e
           | Inr tsv \<Rightarrow>
               (case read_csv fs fixed_width_data CHR '','' of
                  Inl e \<Rightarrow> Inl e
                | Inr txt \<Rightarrow>
                    to_csv P (concat_origins [csv, tsv, txt]) fs extracted_data
                      (concat_axis1 [csv, tsv, txt]))))"

definition transforming :: "pandas \<Rightarrow> filesystem \<Rightarrow> error + filesystem" where
  "transforming P fs =
     (case read_csv fs extracted_data CHR '','' of
        Inl e \<Rightarrow> Inl e
      | Inr df \<Rightarrow>
          (case upper_column P 3 df of
             Inl e \<Rightarrow> Inl e
           | Inr df' \<Rightarrow> to_csv P (parsed(3 := Strings)) fs transformed_data df'))"

text \<open>
  The fixed-width step is the shell pipeline
  \<^verbatim>\<open>cut -c 59-62,63-67 payment-data.txt | tr ' ' ',' > fixed_width_data.csv\<close>.
  \<^verbatim>\<open>cut -c\<close> keeps, of every line, the characters whose position (counted from 1) lies
  in one of the ranges, in the order of the line; \<^verbatim>\<open>tr\<close> replaces every space by a
  comma. The status of a pipeline is the status of its last command: when
  \<^verbatim>\<open>cut\<close> cannot open its file, \<^verbatim>\<open>tr\<close> reads nothing, the output file is created
  empty and the step succeeds.
\<close>

definition in_ranges :: "(nat \<times> nat) list \<Rightarrow> nat \<Rightarrow> bool" where
  "in_ranges rs p = list_ex (\<lambda>(a, b). a \<le> p \<and> p \<le> b) rs"

definition cut_c :: "(nat \<times> nat) list \<Rightarrow> line \<Rightarrow> line" where
  "cut_c rs l = nths l {i. in_ranges rs (Suc i)}"

definition tr :: "char \<Rightarrow> char \<Rightarrow> line \<Rightarrow> line" where
  "tr a b l = map (\<lambda>c. if c = a then b else c) l"

definition extract_txt_line :: "line \<Rightarrow> line" where
  "extract_txt_line l = tr CHR '' '' CHR '','' (cut_c [(59, 62), (63, 67)] l)"

definition extract_txt :: "filesystem \<Rightarrow> error + filesystem" where
  "extract_txt fs =
     Inr (fs(fixed_width_data \<mapsto>
       (case fs payment_data of None \<Rightarrow> [] | Some ls \<Rightarrow> map extract_txt_line ls)))"

text \<open>The five steps that read and write the files of the working directory, with
  the files each one reads and the file it writes.\<close>

datatype data_step =
  Step_csv | Step_tsv | Step_txt | Step_consolidate | Step_transform

fun run :: "pandas \<Rightarrow> data_step \<Rightarrow> filesystem \<Rightarrow> error + filesystem" where
  "run P Step_csv = extracting_csv P"
| "run P Step_tsv = extracting_tsv P"
| "run P Step_txt = extract_txt"
| "run P Step_consolidate = consolidating P"
| "run P Step_transform = transforming P"

fun inputs_of :: "data_step \<Rightarrow> path list" where
  "inputs_of Step_csv = [vehicle_data]"
| "inputs_of Step_tsv = [tollplaza_data]"
| "inputs_of Step_txt = [payment_data]"
| "inputs_of Step_consolidate = [csv_data, tsv_data, fixed_width_data]"
| "inputs_of Step_transform = [extracted_data]"

fun output_of :: "data_step \<Rightarrow> path" where
  "output_of Step_csv = csv_data"
| "output_of Step_tsv = tsv_data"
| "output_of Step_txt = fixed_width_data"
| "output_of Step_consolidate = extracted_data"
| "output_of Step_transform = transformed_data"

fun python_callable :: "data_step \<Rightarrow> bool" where
  "python_callable Step_txt = False"
| "python_callable _ = True"

section \<open>The task graph\<close>

text \<open>
  The tasks of the DAG, and the dependencies that the last line of the source declares:
  \<^verbatim>\<open>download >> unzip >> extract_csv >> extract_tsv >> extract_txt >> consolidate >> transform\<close>.
  \<^verbatim>\<open>a >> b\<close> makes \<open>a\<close> an upstream task of \<open>b\<close> and evaluates to \<open>b\<close>.
\<close>

datatype task =
  Download | Unzip | Extract_csv | Extract_tsv | Extract_txt | Consolidate | Transform

text \<open>
  The first two tasks are shell commands. \<^verbatim>\<open>curl <url> -o tolldata.tgz\<close> writes what
  it retrieves to the archive file; \<^verbatim>\<open>tar -xzf tolldata.tgz -C <directory>\<close> writes every
  member of the archive into the directory, a later member replacing an earlier one of
  the same name. Each fails when its command fails.
\<close>

definition download :: "environment \<Rightarrow> filesystem \<Rightarrow> error + filesystem" where
  "download E fs =
     (case fetched E of
        None \<Rightarrow> Inl BashCommandFailed
      | Some body \<Rightarrow> Inr (fs(tolldata_tgz \<mapsto> body)))"

definition unzip :: "environment \<Rightarrow> filesystem \<Rightarrow> error + filesystem" where
  "unzip E fs =
     (case fs tolldata_tgz of
        None \<Rightarrow> Inl BashCommandFailed
      | Some archive \<Rightarrow>
          (case members E archive of
             None \<Rightarrow> Inl BashCommandFailed
           | Some ms \<Rightarrow> Inr (fold (\<lambda>m fs'. fs'(address @ fst m \<mapsto> snd m)) ms fs)))"

fun run_task :: "environment \<Rightarrow> pandas \<Rightarrow> task \<Rightarrow> filesystem \<Rightarrow> error + filesystem" where
  "run_task E P Download = download E"
| "run_task E P Unzip = unzip E"
| "run_task E P Extract_csv = run P Step_csv"
| "run_task E P Extract_tsv = run P Step_tsv"
| "run_task E P Extract_txt = run P Step_txt"
| "run_task E P Consolidate = run P Step_consolidate"
| "run_task E P Transform = run P Step_transform"

text \<open>The files that a task reads, and the files that it writes when it succeeds.\<close>

fun reads :: "task \<Rightarrow> path list" where
  "reads Download = []"
| "reads Unzip = [tolldata_tgz]"
| "reads Extract_csv = inputs_of Step_csv"
| "reads Extract_tsv = inputs_of Step_tsv"
| "reads Extract_txt = inputs_of Step_txt"
| "reads Consolidate = inputs_of Step_consolidate"
| "reads Transform = inputs_of Step_transform"

fun writes :: "environment \<Rightarrow> filesystem \<Rightarrow> task \<Rightarrow> path list" where
  "writes E fs Download = [tolldata_tgz]"
| "writes E fs Unzip =
     (case fs tolldata_tgz of
        None \<Rightarrow> []
      | Some archive \<Rightarrow>
          (case members E archive of None \<Rightarrow> [] | Some ms \<Rightarrow> map (\<lambda>m. address @ fst m) ms))"
| "writes E fs Extract_csv = [output_of Step_csv]"
| "writes E fs Extract_tsv = [output_of Step_tsv]"
| "writes E fs Extract_txt = [output_of Step_txt]"
| "writes E fs Consolidate = [output_of Step_consolidate]"
| "writes E fs Transform = [output_of Step_transform]"

definition dag_chain :: "task list" where
  "dag_chain = [Download, Unzip, Extract_csv, Extract_tsv, Extract_txt, Consolidate, Transform]"

fun chain_edges :: "task list \<Rightarrow> (task \<times> task) list" where
  "chain_edges (a # b # ts) = (a, b) # chain_edges (b # ts)"
| "chain_edges _ = []"

definition dag_edges :: "(task \<times> task) list" where
  "dag_edges = chain_edges dag_chain"

definition upstream :: "task \<Rightarrow> task list" where
  "upstream t = map fst (filter (\<lambda>e. snd e = t) dag_edges)"

text \<open>
  An execution of the DAG is a sequence of events. The scheduler starts a task only when
  all its upstream tasks have succeeded (the default trigger rule); a task that failed
  may be started again (the retry).
\<close>

datatype event = Start task | Success task | Failure task

fun runs :: "task set \<Rightarrow> task set \<Rightarrow> event list \<Rightarrow> bool" where
  "runs done running [] = True"
| "runs done running (Start t # es) =
     (t \<notin> running \<and> t \<notin> done \<and> list_all (\<lambda>u. u \<in> done) (upstream t)
      \<and> runs done (insert t running) es)"
| "runs done running (Success t # es) =
     (t \<in> running \<and> runs (insert t done) (running - {t}) es)"
| "runs done running (Failure t # es) =
     (t \<in> running \<and> runs done (running - {t}) es)"

definition execution :: "event list \<Rightarrow> bool" where
  "execution es = runs {} {} es"

section \<open>Notions of the specification\<close>

text \<open>A well-formed delimited file with at least \<open>k\<close> columns: it has a row, all rows
  have as many fields as the first, which has at least \<open>k\<close>, and no field holds a
  comma, a double quote or a line break.\<close>

definition plain_field :: "cell \<Rightarrow> bool" where
  "plain_field f = list_all (\<lambda>c. c \<notin> {CHR '','', CHR 0x22, CHR 0x0A, CHR 0x0D}) f"






text \<open>The file at a path after a step, when the step has succeeded.\<close>

definition file_after :: "error + filesystem \<Rightarrow> path \<Rightarrow> text_file option" where
  "file_after r p = (case r of Inl e \<Rightarrow> None | Inr fs \<Rightarrow> fs p)"

text \<open>The field occupying the character positions \<open>a\<close> to \<open>b\<close> of a line, counted
  from 1.\<close>

definition char_range :: "nat \<Rightarrow> nat \<Rightarrow> line \<Rightarrow> string" where
  "char_range a b l = take (Suc b - a) (drop (a - 1) l)"

section \<open>Sample data\<close>

text \<open>An instance of the parameters: the open part of pandas leaves text as it is and
  raises on \<^verbatim>\<open>.str\<close>. The samples below hold columns of strings and of integers only,
  on which the parameters have no influence.\<close>

definition sample_pandas :: pandas where
  "sample_pandas =
     \<lparr>other_text = (\<lambda>og col f. f), other_upper = (\<lambda>col. None), unicode_upper = (\<lambda>s. s)\<rparr>"

text \<open>Extracts of two rows each, as the three extraction steps leave them.\<close>

definition sample_extracts :: filesystem where
  "sample_extracts =
     [csv_data \<mapsto> [''1,Thu Aug 19 2021,125094,car'', ''2,Sat Jul 31 2021,174434,abc''],
      tsv_data \<mapsto> [''2,4856,PC7C042B7'', ''4,4154,PC2C2EF9E''],
      fixed_width_data \<mapsto> [''PTE,VC965'', ''PTC,VCB43'']]"

text \<open>The number of rows that the file at a path holds, read as a comma-separated
  file.\<close>

definition row_count :: "filesystem \<Rightarrow> path \<Rightarrow> nat option" where
  "row_count fs p = map_option (\<lambda>ls. length (rows_of CHR '','' ls)) (fs p)"

text \<open>Two lines of a payment file whose characters 59 to 67 hold one space and two
  spaces, and the extracts that the fixed-width step makes of them.\<close>

definition ragged_payment :: text_file where
  "ragged_payment =
     [replicate 58 CHR ''x'' @ ''PTE VC965'', replicate 58 CHR ''x'' @ ''P E VC965'']"

definition ragged_extracts :: filesystem where
  "ragged_extracts =
     [csv_data \<mapsto> [''1,a,b,car'', ''2,c,d,van''],
      tsv_data \<mapsto> [''x,y,z'', ''u,v,w''],
      fixed_width_data \<mapsto> map extract_txt_line ragged_payment]"








text \<open>Raw files of two records each: comma-separated, tab-separated, and fixed-width
  with the payment code at characters 59 to 61 and the vehicle code at 63 to 67.\<close>

definition sample_raw :: filesystem where
  "sample_raw =
     [vehicle_data \<mapsto>
        [''1,Thu Aug 19 2021,125094,car,2,VC965'', ''2,Sat Jul 31 2021,174434,van,4,VCB43''],
      tollplaza_data \<mapsto>
        map (join_with CHR 0x09)
          [[''1'', ''Thu Aug 19 2021'', ''125094'', ''car'', ''2'', ''4856'', ''PC7C042B7''],
           [''2'', ''Sat Jul 31 2021'', ''174434'', ''van'', ''4'', ''4154'', ''PC2C2EF9E'']],
      payment_data \<mapsto>
        [replicate 58 CHR ''x'' @ ''PTE VC965'', replicate 58 CHR ''x'' @ ''PTC VCB43'']]"


text \<open>A fixed-width line without a space among its characters 59 to 67.\<close>

definition unspaced_line :: line where
  "unspaced_line = replicate 58 CHR ''x'' @ ''ABCDEFGHI''"

text \<open>A consolidated file with three columns only.\<close>

definition narrow_extracted :: filesystem where
  "narrow_extracted = [extracted_data \<mapsto> [''a,b,c'']]"

text \<open>An archive with the three raw files as members, and the directory after the
  download.\<close>

definition sample_archive :: text_file where
  "sample_archive = [''tolldata'']"

definition sample_environment :: environment where
  "sample_environment =
     \<lparr>fetched = Some sample_archive,
      members = (\<lambda>a. if a = sample_archive
        then Some [(''vehicle-data.csv'', [''1,Thu Aug 19 2021,125094,car,2,VC965'']),
                   (''tollplaza-data.tsv'', [''1'']),
                   (''payment-data.txt'', [''1''])]
        else None)\<rparr>"

definition downloaded :: filesystem where
  "downloaded = [tolldata_tgz \<mapsto> sample_archive]"

text \<open>An execution in which the download fails once and is retried.\<close>

definition sample_trace :: "event list" where
  "sample_trace =
     [Start Download, Failure Download, Start Download, Success Download,
      Start Unzip, Success Unzip, Start Extract_csv]"

section \<open>Auxiliary facts\<close>

lemmas path_defs = address_def tolldata_tgz_def vehicle_data_def tollplaza_data_def
  payment_data_def csv_data_def tsv_data_def fixed_width_data_def extracted_data_def
  transformed_data_def

lemma split_on_not_Nil: "split_on sep l \<noteq> []"
  by (induction l) (auto split: list.splits)

lemma split_on_sep_free: "f \<in> set (split_on sep l) \<Longrightarrow> sep \<notin> set f"
proof (induction l arbitrary: f)
  case Nil
  then show ?case by simp
next
  case (Cons c cs)
  then show ?case
    by (cases "split_on sep cs") (auto split: if_splits)
qed

lemma split_on_append_sep:
  "sep \<notin> set f \<Longrightarrow> split_on sep (f @ sep # l) = f # split_on sep l"
  by (induction f) auto

lemma split_on_sep_free_line: "sep \<notin> set f \<Longrightarrow> split_on sep f = [f]"
  by (induction f) auto


lemma sep_in_join: "2 \<le> length fs \<Longrightarrow> sep \<in> set (join_with sep fs)"
  by (induction sep fs rule: join_with.induct) auto

lemma not_blank_join: "2 \<le> length fs \<Longrightarrow> \<not> blank_line sep (join_with sep fs)"
  using sep_in_join[of fs sep] by (auto simp: blank_line_def list_all_iff)


lemma rows_of_sep_free: "r \<in> set (rows_of sep ls) \<Longrightarrow> f \<in> set r \<Longrightarrow> sep \<notin> set f"
  by (auto simp: rows_of_def dest: split_on_sep_free)

lemma rows_of_not_Nil: "r \<in> set (rows_of sep ls) \<Longrightarrow> r \<noteq> []"
  by (auto simp: rows_of_def split_on_not_Nil)

subsection \<open>Reading\<close>

lemma na_filter_idem: "na_filter (na_filter f) = na_filter f"
  by (simp add: na_filter_def na_values_def)

lemma na_filter_sep_free: "sep \<notin> set f \<Longrightarrow> sep \<notin> set (na_filter f)"
  by (simp add: na_filter_def)


lemma na_filter_not_na: "na_filter f = [] \<or> na_filter f \<notin> set na_values"
  by (simp add: na_filter_def)

lemma read_csv_Inr:
  assumes "read_csv fs p sep = Inr t"
  obtains ls where "fs p = Some ls" "rows_of sep ls \<noteq> []"
    "\<forall>r\<in>set (rows_of sep ls). length r \<le> width (rows_of sep ls)"
    "t = map (\<lambda>r. map na_filter (pad_row (width (rows_of sep ls)) r)) (rows_of sep ls)"
  using assms
  by (auto simp: read_csv_def width_def list_ex_iff not_less
           split: option.splits list.splits if_splits)

lemma read_csv_shape:
  assumes "read_csv fs p sep = Inr t"
  shows "t \<noteq> []" and "\<forall>r\<in>set t. length r = width t" and "1 \<le> width t"
    and "\<forall>r\<in>set t. \<forall>f\<in>set r. sep \<notin> set f"
    and "length t = length (rows_of sep (the (fs p)))"
    and "\<forall>r\<in>set t. \<forall>f\<in>set r. f = [] \<or> f \<notin> set na_values"
proof -
  from assms obtain ls where ls: "fs p = Some ls" "rows_of sep ls \<noteq> []"
    "\<forall>r\<in>set (rows_of sep ls). length r \<le> width (rows_of sep ls)"
    "t = map (\<lambda>r. map na_filter (pad_row (width (rows_of sep ls)) r)) (rows_of sep ls)"
    by (rule read_csv_Inr)
  let ?R = "rows_of sep ls"
  from ls(2) obtain r rs where R: "?R = r # rs" by (cases ?R) auto
  have r: "r \<noteq> []" using rows_of_not_Nil[of r sep ls] R by simp
  have w: "width ?R = length r" by (simp add: R width_def)
  show "t \<noteq> []" using ls by simp
  have wt: "width t = length r"
    by (simp add: ls(4) R width_def pad_row_def)
  show "\<forall>r\<in>set t. length r = width t"
    unfolding wt using ls(3) by (auto simp: ls(4) w pad_row_def)
  show "1 \<le> width t" using r wt by (cases r) auto
  show "\<forall>r\<in>set t. \<forall>f\<in>set r. sep \<notin> set f"
    using rows_of_sep_free[of _ sep ls]
    by (auto simp: ls(4) pad_row_def na_filter_def)
  show "length t = length (rows_of sep (the (fs p)))"
    by (simp add: ls)
  show "\<forall>r\<in>set t. \<forall>f\<in>set r. f = [] \<or> f \<notin> set na_values"
    using na_filter_not_na by (auto simp: ls(4))
qed





subsection \<open>Writing\<close>



lemma write_row_not_blank:
  assumes "2 \<le> length r"
  shows "\<not> blank_line CHR '','' (write_row r)"
proof -
  have "r \<noteq> [[]]" using assms by auto
  then have "write_row r = join_with CHR '','' (map quote_field r)"
    by (simp add: write_row_def)
  then show ?thesis using not_blank_join[of "map quote_field r" "CHR '',''"] assms by simp
qed

lemma length_rows_of_written:
  assumes "\<forall>r\<in>set df. 2 \<le> length r"
  shows "length (rows_of CHR '','' (map write_row df)) = length df"
proof -
  have "filter (\<lambda>l. \<not> blank_line CHR '','' l) (map write_row df) = map write_row df"
    using assms by (auto simp: filter_id_conv write_row_not_blank)
  then show ?thesis by (simp add: rows_of_def)
qed


subsection \<open>Upper case\<close>

lemma of_char_upper:
  assumes "97 \<le> (of_char c :: nat)" "of_char c \<le> (122 :: nat)"
  shows "(of_char (char_of (of_char c - 32 :: nat)) :: nat) = of_char c - 32"
proof -
  have "(of_char c - 32 :: nat) < 256" using assms by arith
  then show ?thesis by simp
qed

lemma upper_char_idem: "upper_char (upper_char c) = upper_char c"
proof (cases "97 \<le> (of_char c :: nat) \<and> of_char c \<le> (122 :: nat)")
  case True
  then have u: "upper_char c = char_of (of_char c - 32 :: nat)"
    by (simp add: upper_char_def Let_def)
  have "(of_char (upper_char c) :: nat) = of_char c - 32"
    unfolding u using True by (intro of_char_upper) auto
  with True have "\<not> (97 \<le> (of_char (upper_char c) :: nat))" by arith
  then show ?thesis by (simp add: upper_char_def[of "upper_char c"] Let_def)
next
  case False
  then show ?thesis by (auto simp: upper_char_def Let_def)
qed

lemma upper_char_code:
  "(of_char (upper_char c) :: nat) =
     (if 97 \<le> (of_char c :: nat) \<and> of_char c \<le> (122 :: nat) then of_char c - 32 else of_char c)"
proof (cases "97 \<le> (of_char c :: nat) \<and> of_char c \<le> (122 :: nat)")
  case True
  then have "upper_char c = char_of (of_char c - 32 :: nat)"
    by (simp add: upper_char_def Let_def)
  then show ?thesis using True of_char_upper[of c] by simp
next
  case False
  then show ?thesis by (auto simp: upper_char_def Let_def)
qed

lemma upper_char_quoting: "quoting_char (upper_char c) \<longleftrightarrow> quoting_char c"
proof (cases "97 \<le> (of_char c :: nat) \<and> of_char c \<le> (122 :: nat)")
  case True
  then have u: "(of_char (upper_char c) :: nat) = of_char c - 32"
    by (simp add: upper_char_code)
  have "\<not> quoting_char (upper_char c)"
  proof
    assume "quoting_char (upper_char c)"
    then have "(of_char (upper_char c) :: nat) \<in> {44, 34, 10, 13}"
      by (auto simp: quoting_char_def)
    with u True show False by auto
  qed
  moreover have "\<not> quoting_char c"
  proof
    assume "quoting_char c"
    then have "(of_char c :: nat) \<in> {44, 34, 10, 13}"
      by (auto simp: quoting_char_def)
    with True show False by auto
  qed
  ultimately show ?thesis by simp
next
  case False
  then show ?thesis by (auto simp: upper_char_def Let_def)
qed

lemma numeric_char_upper: "numeric_char (upper_char c) = numeric_char c"
  by (simp add: numeric_char_def upper_char_idem)

lemma ascii_upper: "ascii s \<Longrightarrow> ascii (map upper_char s)"
proof -
  have "(of_char (upper_char c) :: nat) \<le> of_char c" for c
    by (simp add: upper_char_code)
  then have "(of_char c :: nat) < 128 \<Longrightarrow> (of_char (upper_char c) :: nat) < 128" for c
    using le_less_trans by blast
  then show "ascii s \<Longrightarrow> ascii (map upper_char s)"
    by (auto simp: ascii_def list_all_iff)
qed

lemma str_upper_ascii: "ascii s \<Longrightarrow> str_upper P s = map upper_char s"
  by (simp add: str_upper_def)

lemma str_upper_idem: "ascii s \<Longrightarrow> str_upper P (str_upper P s) = str_upper P s"
  by (simp add: str_upper_ascii ascii_upper upper_char_idem)

lemma str_upper_clean:
  "ascii s \<Longrightarrow> \<not> list_ex quoting_char s \<Longrightarrow> \<not> list_ex quoting_char (str_upper P s)"
  by (simp add: str_upper_ascii list_ex_iff upper_char_quoting)

lemma str_upper_text: "ascii s \<Longrightarrow> text_field (str_upper P s) = text_field s"
  by (simp add: str_upper_ascii text_field_def list_ex_iff numeric_char_upper)

lemma str_upper_abc: "str_upper P ''abc'' = ''ABC''"
proof -
  have "ascii ''abc''" by (simp add: ascii_def)
  moreover have "map upper_char ''abc'' = ''ABC''" by code_simp
  ultimately show ?thesis by (simp add: str_upper_ascii)
qed

subsection \<open>Rendering\<close>

lemma length_render: "length (render P ogs df) = length df"
  by (simp add: render_def)




lemma render_rows_length:
  assumes "\<forall>r\<in>set df. k \<le> length r"
  shows "\<forall>r\<in>set (render P ogs df). k \<le> length r"
  using assms by (auto simp: render_def)















subsection \<open>Consolidation\<close>

lemma consolidating_eq:
  assumes "read_csv fs csv_data CHR '','' = Inr t1"
    and "read_csv fs tsv_data CHR '','' = Inr t2"
    and "read_csv fs fixed_width_data CHR '','' = Inr t3"
  shows "consolidating P fs =
    Inr (fs(extracted_data \<mapsto> map write_row (render P (concat_origins [t1, t2, t3]) (concat_axis1 [t1, t2, t3]))))"
  using assms by (simp add: consolidating_def to_csv_def)

lemma length_concat_axis1:
  "length (concat_axis1 [a, b, c]) = max (length a) (max (length b) (length c))"
  by (simp add: concat_axis1_def max.commute max.left_commute)


lemma row_at_shape:
  assumes "read_csv fs p sep = Inr t"
  shows "length (row_at t i) = width t" and "\<forall>f\<in>set (row_at t i). sep \<notin> set f"
  using read_csv_shape(2,4)[OF assms] by (auto simp: row_at_def)

lemma concat_rows_length:
  assumes "read_csv fs csv_data CHR '','' = Inr t1"
    and "read_csv fs tsv_data CHR '','' = Inr t2"
    and "read_csv fs fixed_width_data CHR '','' = Inr t3"
  shows "\<forall>r\<in>set (concat_axis1 [t1, t2, t3]). length r = width t1 + width t2 + width t3"
    and "\<forall>r\<in>set (concat_axis1 [t1, t2, t3]). 2 \<le> length r"
proof -
  show 1: "\<forall>r\<in>set (concat_axis1 [t1, t2, t3]). length r = width t1 + width t2 + width t3"
    by (auto simp: concat_axis1_def row_at_shape(1)[OF assms(1)] row_at_shape(1)[OF assms(2)]
          row_at_shape(1)[OF assms(3)])
  show "\<forall>r\<in>set (concat_axis1 [t1, t2, t3]). 2 \<le> length r"
    using 1 read_csv_shape(3)[OF assms(1)] read_csv_shape(3)[OF assms(2)] by auto
qed






subsection \<open>The fixed-width step\<close>

lemma cut_c_59_67: "cut_c [(59, 62), (63, 67)] l = take 9 (drop 58 l)"
proof -
  have "{i. in_ranges [(59, 62), (63, 67)] (Suc i)} = (+) 58 ` {..<9}"
  proof (intro set_eqI iffI)
    fix i :: nat assume "i \<in> {i. in_ranges [(59, 62), (63, 67)] (Suc i)}"
    then have "58 \<le> i \<and> i < 67" by (auto simp: in_ranges_def)
    then have "i = 58 + (i - 58) \<and> i - 58 < 9" by arith
    then show "i \<in> (+) 58 ` {..<9}" by blast
  next
    fix i :: nat assume "i \<in> (+) 58 ` {..<9}"
    then obtain k where "i = 58 + k" "k < 9" by auto
    then show "i \<in> {i. in_ranges [(59, 62), (63, 67)] (Suc i)}"
      by (simp add: in_ranges_def) arith
  qed
  then show ?thesis
    by (simp add: cut_c_def nths_drop[symmetric])
qed

lemma extract_txt_line_eq:
  "extract_txt_line l = tr CHR '' '' CHR '','' (take 9 (drop 58 l))"
  by (simp add: extract_txt_line_def cut_c_59_67)

lemma ragged_lines:
  "map extract_txt_line ragged_payment = [''PTE,VC965'', ''P,E,VC965'']"
  by (simp add: ragged_payment_def extract_txt_line_eq tr_def)


lemma tr_append: "tr a b (xs @ ys) = tr a b xs @ tr a b ys"
  by (simp add: tr_def)

lemma tr_absent: "a \<notin> set xs \<Longrightarrow> tr a b xs = xs"
  unfolding tr_def by (induction xs) auto

lemma tr_Cons: "tr a b (a # xs) = b # tr a b xs"
  by (simp add: tr_def)

lemma chars_59_67:
  assumes "67 \<le> length l"
  shows "take 9 (drop 58 l) = take 3 (drop 58 l) @ l ! 61 # take 5 (drop 62 l)"
proof -
  have "take 9 (drop 58 l) = take 3 (drop 58 l) @ take 6 (drop 61 l)"
    using take_add[of 3 6 "drop 58 l"] by simp
  moreover have "drop 61 l = l ! 61 # drop 62 l"
    using assms Cons_nth_drop_Suc[of 61 l] by simp
  ultimately show ?thesis by simp
qed

subsection \<open>Tables whose columns are written as they were read\<close>





subsection \<open>Samples\<close>

lemma sample_reads:
  "read_csv sample_extracts csv_data CHR '','' =
      Inr [[''1'', ''Thu Aug 19 2021'', ''125094'', ''car''],
           [''2'', ''Sat Jul 31 2021'', ''174434'', ''abc'']]"
  "read_csv sample_extracts tsv_data CHR '','' =
      Inr [[''2'', ''4856'', ''PC7C042B7''], [''4'', ''4154'', ''PC2C2EF9E'']]"
  "read_csv sample_extracts fixed_width_data CHR '','' =
      Inr [[''PTE'', ''VC965''], [''PTC'', ''VCB43'']]"
  by (simp_all add: sample_extracts_def read_csv_def rows_of_def blank_line_def pad_row_def
        na_filter_def na_values_def path_defs)



subsection \<open>Transformation\<close>












subsection \<open>Extraction\<close>

lemma plain_field_comma_free: "plain_field f \<Longrightarrow> CHR '','' \<notin> set f"
  by (auto simp: plain_field_def list_all_iff)






subsection \<open>Effects and failures of the steps\<close>

lemma run_writes_output:
  "run P st fs = Inr fs' \<Longrightarrow> \<exists>ls. fs' = fs(output_of st \<mapsto> ls)"
  by (cases st)
     (auto simp: extracting_csv_def extracting_tsv_def extract_txt_def consolidating_def
        transforming_def to_csv_def split: sum.splits)

lemma output_not_input: "output_of st \<notin> set (inputs_of st)"
  by (cases st) (simp_all add: path_defs)

lemma unzip_frame:
  "p \<notin> set (map (\<lambda>m. address @ fst m) ms) \<Longrightarrow>
   fold (\<lambda>m fs'. fs'(address @ fst m \<mapsto> snd m)) ms fs p = fs p"
  by (induction ms arbitrary: fs) auto

lemma unzip_keeps:
  "fs p \<noteq> None \<Longrightarrow> fold (\<lambda>m fs'. fs'(address @ fst m \<mapsto> snd m)) ms fs p \<noteq> None"
  by (induction ms arbitrary: fs) auto

lemma read_csv_missing: "fs p = None \<Longrightarrow> read_csv fs p sep = Inl (FileNotFoundError p)"
  by (simp add: read_csv_def)

lemma read_csv_FileNotFound:
  "read_csv fs p sep = Inl (FileNotFoundError q) \<Longrightarrow> q = p \<and> fs p = None"
  by (auto simp: read_csv_def split: option.splits list.splits if_splits)

lemma select_columns_error: "select_columns df cols = Inl e \<Longrightarrow> \<exists>c. e = KeyError c"
  by (auto simp: select_columns_def split: list.splits)

lemma upper_column_error:
  "upper_column P c df = Inl e \<Longrightarrow> e = KeyError c \<or> e = AttributeError"
  by (auto simp: upper_column_def split: if_splits option.splits)

text \<open>The fixed-width step does not fail when its input is missing: the failure of
  \<^verbatim>\<open>cut\<close> is masked by the pipeline, and the step leaves an empty extract.\<close>

lemma extract_txt_missing_input:
  "fs payment_data = None \<Longrightarrow> extract_txt fs = Inr (fs(fixed_width_data \<mapsto> []))"
  by (simp add: extract_txt_def)

subsection \<open>The task graph\<close>

lemma upstream_simps:
  "upstream Download = []" "upstream Unzip = [Download]"
  "upstream Extract_csv = [Unzip]" "upstream Extract_tsv = [Extract_csv]"
  "upstream Extract_txt = [Extract_tsv]" "upstream Consolidate = [Extract_txt]"
  "upstream Transform = [Consolidate]"
  by (simp_all add: upstream_def dag_edges_def dag_chain_def)

lemma upstream_chain:
  assumes "k < 6"
  shows "upstream (dag_chain ! Suc k) = [dag_chain ! k]"
proof -
  from assms have "k = 0 \<or> k = 1 \<or> k = 2 \<or> k = 3 \<or> k = 4 \<or> k = 5" by arith
  then show ?thesis
    by (elim disjE) (simp_all add: dag_chain_def upstream_simps)
qed

lemma runs_start:
  "runs D R es \<Longrightarrow> j < length es \<Longrightarrow> es ! j = Start t \<Longrightarrow> u \<in> set (upstream t)
   \<Longrightarrow> u \<in> D \<or> (\<exists>i<j. es ! i = Success u)"
proof (induction D R es arbitrary: j rule: runs.induct)
  case (1 D R)
  then show ?case by simp
next
  case (2 D R t' es)
  show ?case
  proof (cases j)
    case 0
    with "2.prems" show ?thesis by (auto simp: list_all_iff)
  next
    case (Suc j')
    with "2.prems" "2.IH"[of j'] have "u \<in> D \<or> (\<exists>i<j'. es ! i = Success u)" by auto
    then show ?thesis using Suc by auto
  qed
next
  case (3 D R t' es)
  show ?case
  proof (cases j)
    case 0
    with "3.prems" show ?thesis by simp
  next
    case (Suc j')
    with "3.prems" "3.IH"[of j'] have "u \<in> insert t' D \<or> (\<exists>i<j'. es ! i = Success u)"
      by auto
    then consider "u = t'" | "u \<in> D" | "\<exists>i<j'. es ! i = Success u" by auto
    then show ?thesis
    proof cases
      case 1
      then have "(Success t' # es) ! 0 = Success u" by simp
      then show ?thesis using Suc by blast
    next
      case 2
      then show ?thesis by simp
    next
      case 3
      then show ?thesis using Suc by auto
    qed
  qed
next
  case (4 D R t' es)
  show ?case
  proof (cases j)
    case 0
    with "4.prems" show ?thesis by simp
  next
    case (Suc j')
    with "4.prems" "4.IH"[of j'] have "u \<in> D \<or> (\<exists>i<j'. es ! i = Success u)" by auto
    then show ?thesis using Suc by auto
  qed
qed

lemma runs_success:
  "runs D R es \<Longrightarrow> i < length es \<Longrightarrow> es ! i = Success t
   \<Longrightarrow> t \<in> R \<or> (\<exists>i'<i. es ! i' = Start t)"
proof (induction D R es arbitrary: i rule: runs.induct)
  case (1 D R)
  then show ?case by simp
next
  case (2 D R t' es)
  show ?case
  proof (cases i)
    case 0
    with "2.prems" show ?thesis by simp
  next
    case (Suc i')
    with "2.prems" "2.IH"[of i'] have "t \<in> insert t' R \<or> (\<exists>k<i'. es ! k = Start t)" by auto
    then consider "t = t'" | "t \<in> R" | "\<exists>k<i'. es ! k = Start t" by auto
    then show ?thesis
    proof cases
      case 1
      then have "(Start t' # es) ! 0 = Start t" by simp
      then show ?thesis using Suc by blast
    next
      case 2
      then show ?thesis by simp
    next
      case 3
      then show ?thesis using Suc by auto
    qed
  qed
next
  case (3 D R t' es)
  show ?case
  proof (cases i)
    case 0
    with "3.prems" show ?thesis by simp
  next
    case (Suc i')
    with "3.prems" "3.IH"[of i'] have "t \<in> R - {t'} \<or> (\<exists>k<i'. es ! k = Start t)" by auto
    then show ?thesis using Suc by auto
  qed
next
  case (4 D R t' es)
  show ?case
  proof (cases i)
    case 0
    with "4.prems" show ?thesis by simp
  next
    case (Suc i')
    with "4.prems" "4.IH"[of i'] have "t \<in> R - {t'} \<or> (\<exists>k<i'. es ! k = Start t)" by auto
    then show ?thesis using Suc by auto
  qed
qed

lemma predecessor_succeeded:
  assumes "execution es" "j < length es" "es ! j = Start (dag_chain ! Suc k)" "k < 6"
  shows "\<exists>i<j. es ! i = Success (dag_chain ! k)"
  using runs_start[of "{}" "{}" es j "dag_chain ! Suc k" "dag_chain ! k"] assms
  by (simp add: execution_def upstream_chain)

lemma earlier_succeeded:
  assumes "execution es" "k < 6"
  shows "j < length es \<Longrightarrow> es ! j = Start (dag_chain ! Suc k) \<Longrightarrow> m \<le> k
         \<Longrightarrow> \<exists>i<j. es ! i = Success (dag_chain ! m)"
proof (induction "k - m" arbitrary: m)
  case 0
  then have "m = k" by simp
  with predecessor_succeeded[OF assms(1) "0.prems"(1,2) assms(2)] show ?case by simp
next
  case (Suc d)
  then have m: "Suc m \<le> k" "d = k - Suc m" by simp_all
  from Suc.hyps(1)[OF m(2) Suc.prems(1,2) m(1)]
  obtain i where i: "i < j" "es ! i = Success (dag_chain ! Suc m)" by blast
  with Suc.prems(1) have il: "i < length es" by simp
  from runs_success[of "{}" "{}" es i "dag_chain ! Suc m"] assms(1) il i(2)
  obtain i' where i': "i' < i" "es ! i' = Start (dag_chain ! Suc m)"
    by (auto simp: execution_def)
  have "m < 6" using m(1) assms(2) by simp
  from predecessor_succeeded[OF assms(1) _ i'(2) this] i'(1) il
  obtain i'' where "i'' < i'" "es ! i'' = Success (dag_chain ! m)" by auto
  with i'(1) i(1) show ?case by (intro exI[of _ i'']) simp
qed

section \<open>Consolidation\<close>




text \<open>
  Claim C3, as stated, fails: three extracts of two rows each, the fixed-width one made
  by the fixed-width step from the two payment lines above, on which the consolidation
  step raises instead of producing a table (the second row of the fixed-width extract has
  three fields, the first has two).
\<close>

theorem consolidating_ragged_counterexample:
  "row_count ragged_extracts csv_data = Some 2
   \<and> row_count ragged_extracts tsv_data = Some 2
   \<and> row_count ragged_extracts fixed_width_data = Some 2
   \<and> consolidating sample_pandas ragged_extracts = Inl (ParserError 2)"
  by (simp add: ragged_extracts_def ragged_lines row_count_def consolidating_def read_csv_def
        rows_of_def blank_line_def pad_row_def na_filter_def na_values_def path_defs)

text \<open>
  Claim C3, amended. For every \<open>n\<close> and every three extracts that \<^verbatim>\<open>read_csv\<close> reads
  as tables of exactly \<open>n\<close> rows each (each file has a row, and no row of a file has more
  fields than its first), the consolidation step succeeds and writes a table of exactly
  \<open>n\<close> rows; \<open>n\<close> is then positive.
\<close>

theorem consolidating_equal_counts:
  assumes "read_csv fs csv_data CHR '','' = Inr t1"
    and "read_csv fs tsv_data CHR '','' = Inr t2"
    and "read_csv fs fixed_width_data CHR '','' = Inr t3"
    and "length t1 = n" "length t2 = n" "length t3 = n"
  shows "\<exists>out. consolidating P fs = Inr (fs(extracted_data \<mapsto> out))
           \<and> length out = n \<and> length (rows_of CHR '','' out) = n \<and> 0 < n"
proof -
  let ?T = "concat_axis1 [t1, t2, t3]"
  let ?out = "map write_row (render P (concat_origins [t1, t2, t3]) ?T)"
  have 1: "consolidating P fs = Inr (fs(extracted_data \<mapsto> ?out))"
    using assms(1-3) by (rule consolidating_eq)
  have 2: "length ?out = n"
    by (simp add: length_render length_concat_axis1 assms)
  have "length (rows_of CHR '','' ?out) = length (render P (concat_origins [t1, t2, t3]) ?T)"
    by (rule length_rows_of_written)
       (rule render_rows_length[OF concat_rows_length(2)[OF assms(1-3)]])
  then have 3: "length (rows_of CHR '','' ?out) = n"
    by (simp add: length_render length_concat_axis1 assms)
  have 4: "0 < n" using read_csv_shape(1)[OF assms(1)] assms(4) by auto
  show ?thesis by (intro exI[of _ ?out] conjI 1 2 3 4)
qed

theorem consolidating_equal_counts_witness:
  "\<exists>out. consolidating sample_pandas sample_extracts
       = Inr (sample_extracts(extracted_data \<mapsto> out))
     \<and> length out = 2 \<and> length (rows_of CHR '','' out) = 2"
  using consolidating_equal_counts[OF sample_reads, of 2 sample_pandas] by simp




section \<open>Transformation\<close>







section \<open>Extraction\<close>




text \<open>
  Claim C5, as stated, fails: for a line without a space among its characters 59 to 67
  the fixed-width step writes one field, not the two fields of the positions 59-62 and
  63-67.
\<close>

theorem extract_txt_counterexample:
  "split_on CHR '','' (extract_txt_line unspaced_line) = [''ABCDEFGHI'']
   \<and> split_on CHR '','' (extract_txt_line unspaced_line)
       \<noteq> [char_range 59 62 unspaced_line, char_range 63 67 unspaced_line]"
  by (simp add: unspaced_line_def extract_txt_line_eq tr_def char_range_def)

text \<open>
  Claim C5, amended. For every line of the fixed-width input the step writes the
  characters at the positions 59 to 67 of that line with every space replaced by a
  comma, and nothing else. This is exactly two comma-separated fields, the characters
  59 to 61 and the characters 63 to 67, when the line has at least 67 characters,
  position 62 holds a space and the other eight positions hold neither a space nor a
  comma. The output file has one line per line of the input.
\<close>

theorem extract_txt_fields:
  "extract_txt_line l = tr CHR '' '' CHR '','' (char_range 59 67 l)
   \<and> (67 \<le> length l \<and> l ! 61 = CHR '' ''
        \<and> (\<forall>c \<in> set (char_range 59 61 l) \<union> set (char_range 63 67 l).
              c \<noteq> CHR '' '' \<and> c \<noteq> CHR '','')
      \<longrightarrow> split_on CHR '','' (extract_txt_line l) = [char_range 59 61 l, char_range 63 67 l])
   \<and> (fs payment_data = Some ls
      \<longrightarrow> extract_txt fs = Inr (fs(fixed_width_data \<mapsto> map extract_txt_line ls)))"
proof (intro conjI impI)
  show "extract_txt_line l = tr CHR '' '' CHR '','' (char_range 59 67 l)"
    by (simp add: extract_txt_line_eq char_range_def)
next
  assume h: "67 \<le> length l \<and> l ! 61 = CHR '' ''
        \<and> (\<forall>c \<in> set (char_range 59 61 l) \<union> set (char_range 63 67 l).
              c \<noteq> CHR '' '' \<and> c \<noteq> CHR '','')"
  let ?a = "take 3 (drop 58 l)" and ?b = "take 5 (drop 62 l)"
  have ab: "char_range 59 61 l = ?a" "char_range 63 67 l = ?b"
    by (simp_all add: char_range_def)
  from h have free: "CHR '' '' \<notin> set ?a" "CHR '' '' \<notin> set ?b"
    "CHR '','' \<notin> set ?a" "CHR '','' \<notin> set ?b"
    unfolding ab by auto
  have "extract_txt_line l = tr CHR '' '' CHR '','' (?a @ CHR '' '' # ?b)"
    using h chars_59_67[of l] by (simp add: extract_txt_line_eq)
  also have "\<dots> = ?a @ CHR '','' # ?b"
    by (simp only: tr_append tr_Cons tr_absent[OF free(1)] tr_absent[OF free(2)])
  finally have "split_on CHR '','' (extract_txt_line l) = [?a, ?b]"
    using free(3,4) by (simp add: split_on_append_sep split_on_sep_free_line)
  then show "split_on CHR '','' (extract_txt_line l) = [char_range 59 61 l, char_range 63 67 l]"
    by (simp only: ab)
next
  assume "fs payment_data = Some ls"
  then show "extract_txt fs = Inr (fs(fixed_width_data \<mapsto> map extract_txt_line ls))"
    by (simp add: extract_txt_def)
qed

theorem extract_txt_fields_witness:
  "split_on CHR '','' (extract_txt_line (replicate 58 CHR ''x'' @ ''PTE VC965''))
     = [''PTE'', ''VC965'']
   \<and> extract_txt sample_raw
      = Inr (sample_raw(fixed_width_data \<mapsto> [''PTE,VC965'', ''PTC,VCB43'']))"
proof -
  let ?l = "replicate 58 CHR ''x'' @ ''PTE VC965''"
  let ?ls = "[replicate 58 CHR ''x'' @ ''PTE VC965'', replicate 58 CHR ''x'' @ ''PTC VCB43'']"
  note t = extract_txt_fields[of ?l sample_raw ?ls]
  have r: "char_range 59 61 ?l = ''PTE''" "char_range 63 67 ?l = ''VC965''"
    by (simp_all add: char_range_def)
  have h1: "67 \<le> length ?l \<and> ?l ! 61 = CHR '' ''
        \<and> (\<forall>c \<in> set (char_range 59 61 ?l) \<union> set (char_range 63 67 ?l).
              c \<noteq> CHR '' '' \<and> c \<noteq> CHR '','')"
    unfolding r by (simp add: nth_append)
  have h2: "sample_raw payment_data = Some ?ls" by (simp add: sample_raw_def path_defs)
  have "split_on CHR '','' (extract_txt_line ?l) = [''PTE'', ''VC965'']"
    using t[THEN conjunct2, THEN conjunct1, rule_format, OF h1] unfolding r .
  moreover have "extract_txt sample_raw
      = Inr (sample_raw(fixed_width_data \<mapsto> [''PTE,VC965'', ''PTC,VCB43'']))"
    using t[THEN conjunct2, THEN conjunct2, rule_format, OF h2]
    by (simp add: extract_txt_line_eq tr_def)
  ultimately show ?thesis ..
qed

section \<open>Effects of the steps on the files\<close>

text \<open>
  Claim C9, as stated, fails: the unpack step has no single output file. On a directory
  that holds the archive only, it writes the three members of the archive, three files
  that were not there.
\<close>

theorem unzip_counterexample:
  "downloaded vehicle_data = None \<and> downloaded tollplaza_data = None
   \<and> downloaded payment_data = None
   \<and> file_after (run_task sample_environment sample_pandas Unzip downloaded) vehicle_data
       = Some [''1,Thu Aug 19 2021,125094,car,2,VC965'']
   \<and> file_after (run_task sample_environment sample_pandas Unzip downloaded) tollplaza_data
       = Some [''1'']
   \<and> file_after (run_task sample_environment sample_pandas Unzip downloaded) payment_data
       = Some [''1'']"
  by (simp add: downloaded_def sample_environment_def unzip_def file_after_def path_defs)

text \<open>
  Claim C9, amended. Each of the seven tasks, when it succeeds, leaves every file that it
  does not write as it was, and deletes no file. The download, the three extraction
  steps, consolidation and transformation write one file each, which is none of the files
  they read, so that their input files are unchanged; the unpack step writes one file for
  every member of the archive. (A task that fails has no resulting file system in the
  embedding: the Python steps write as their last action.)
\<close>

theorem task_frame:
  "run_task E P t fs = Inr fs' \<Longrightarrow>
     (\<forall>p. p \<notin> set (writes E fs t) \<longrightarrow> fs' p = fs p)
     \<and> (\<forall>p. fs p \<noteq> None \<longrightarrow> fs' p \<noteq> None)
     \<and> (t \<noteq> Unzip \<longrightarrow>
          length (writes E fs t) = 1 \<and> (\<forall>p \<in> set (reads t). fs' p = fs p))"
proof -
  assume r: "run_task E P t fs = Inr fs'"
  have step: "(\<forall>p. p \<notin> set [output_of st] \<longrightarrow> fs' p = fs p)
     \<and> (\<forall>p. fs p \<noteq> None \<longrightarrow> fs' p \<noteq> None)
     \<and> (\<forall>p \<in> set (inputs_of st). fs' p = fs p)" if "run P st fs = Inr fs'" for st
  proof -
    from that obtain ls where fs': "fs' = fs(output_of st \<mapsto> ls)"
      using run_writes_output by blast
    show ?thesis using output_not_input[of st] by (auto simp: fs')
  qed
  show ?thesis
  proof (cases t)
    case Download
    with r obtain body where "fs' = fs(tolldata_tgz \<mapsto> body)"
      by (auto simp: download_def split: option.splits)
    with Download show ?thesis by simp
  next
    case Unzip
    with r obtain archive ms where u: "fs tolldata_tgz = Some archive"
      "members E archive = Some ms"
      "fs' = fold (\<lambda>m fs'. fs'(address @ fst m \<mapsto> snd m)) ms fs"
      by (auto simp: unzip_def split: option.splits)
    with Unzip show ?thesis by (simp add: unzip_frame unzip_keeps)
  next
    case Extract_csv
    with r step[of Step_csv] show ?thesis by simp
  next
    case Extract_tsv
    with r step[of Step_tsv] show ?thesis by simp
  next
    case Extract_txt
    with r step[of Step_txt] show ?thesis by simp
  next
    case Consolidate
    with r step[of Step_consolidate] show ?thesis by simp
  next
    case Transform
    with r step[of Step_transform] show ?thesis by simp
  qed
qed

theorem task_frame_witness:
  "\<exists>fs'. run_task sample_environment sample_pandas Consolidate sample_extracts = Inr fs'
     \<and> fs' csv_data = sample_extracts csv_data
     \<and> fs' tsv_data = sample_extracts tsv_data
     \<and> fs' fixed_width_data = sample_extracts fixed_width_data
     \<and> fs' payment_data = None"
proof -
  from consolidating_eq[OF sample_reads, of sample_pandas]
  obtain out where r: "run_task sample_environment sample_pandas Consolidate sample_extracts
      = Inr (sample_extracts(extracted_data \<mapsto> out))"
    by auto
  note t = task_frame[OF r]
  have "(sample_extracts(extracted_data \<mapsto> out)) csv_data = sample_extracts csv_data"
    and "(sample_extracts(extracted_data \<mapsto> out)) tsv_data = sample_extracts tsv_data"
    and "(sample_extracts(extracted_data \<mapsto> out)) fixed_width_data
          = sample_extracts fixed_width_data"
    using t[THEN conjunct2, THEN conjunct2] by simp_all
  moreover have "(sample_extracts(extracted_data \<mapsto> out)) payment_data = None"
    using t[THEN conjunct1, rule_format, of payment_data]
    by (simp add: sample_extracts_def path_defs)
  ultimately show ?thesis using r by blast
qed

text \<open>
  Claim C8, as stated, fails: the transformation step returns an error although its
  input file is present and readable (the table has no column 3), so a step does not
  fail exactly when an input file is absent or unreadable.
\<close>

theorem transforming_narrow_counterexample:
  "narrow_extracted extracted_data = Some [''a,b,c'']
   \<and> run sample_pandas Step_transform narrow_extracted = Inl (KeyError 3)"
  by (simp add: narrow_extracted_def transforming_def read_csv_def rows_of_def blank_line_def
        pad_row_def upper_column_def width_def na_filter_def na_values_def)

text \<open>
  Claim C8, amended. For each of the four Python steps: when one of its input files
  is missing the step returns an error, which nothing catches (the error is the result
  of the step, and no file is written), and it returns \<^verbatim>\<open>FileNotFoundError\<close> for a path
  only when that path is one of its input files and is missing. (A step also fails on a
  file that is present: one without rows, one with a row longer than its first, one
  that lacks a selected column, one whose column 3 does not hold strings.)
\<close>

theorem python_step_missing_input:
  assumes py: "python_callable st"
  shows "(p \<in> set (inputs_of st) \<and> fs p = None \<longrightarrow> (\<exists>e. run P st fs = Inl e))
     \<and> (run P st fs = Inl (FileNotFoundError q) \<longrightarrow> q \<in> set (inputs_of st) \<and> fs q = None)"
proof (rule conjI; rule impI)
  assume "p \<in> set (inputs_of st) \<and> fs p = None"
  then have p: "p \<in> set (inputs_of st)" "fs p = None" by simp_all
  show "\<exists>e. run P st fs = Inl e"
  proof (cases st)
    case Step_csv
    with p show ?thesis by (simp add: extracting_csv_def read_csv_missing)
  next
    case Step_tsv
    with p show ?thesis by (simp add: extracting_tsv_def read_csv_missing)
  next
    case Step_txt
    with py show ?thesis by simp
  next
    case Step_consolidate
    with p show ?thesis
      by (auto simp: consolidating_def read_csv_missing split: sum.splits)
  next
    case Step_transform
    with p show ?thesis by (simp add: transforming_def read_csv_missing)
  qed
next
  assume e: "run P st fs = Inl (FileNotFoundError q)"
  show "q \<in> set (inputs_of st) \<and> fs q = None"
  proof (cases st)
    case Step_csv
    with e show ?thesis
      by (auto simp: extracting_csv_def to_csv_def split: sum.splits
            dest: read_csv_FileNotFound select_columns_error)
  next
    case Step_tsv
    with e show ?thesis
      by (auto simp: extracting_tsv_def to_csv_def split: sum.splits
            dest: read_csv_FileNotFound select_columns_error)
  next
    case Step_txt
    with py show ?thesis by simp
  next
    case Step_consolidate
    with e show ?thesis
      by (auto simp: consolidating_def to_csv_def split: sum.splits
            dest: read_csv_FileNotFound)
  next
    case Step_transform
    with e show ?thesis
      by (auto simp: transforming_def to_csv_def split: sum.splits
            dest: read_csv_FileNotFound upper_column_error)
  qed
qed

theorem python_step_missing_input_witness:
  "python_callable Step_consolidate
   \<and> tsv_data \<in> set (inputs_of Step_consolidate) \<and> Map.empty tsv_data = None
   \<and> (\<exists>e. run sample_pandas Step_consolidate Map.empty = Inl e)
   \<and> run sample_pandas Step_consolidate Map.empty = Inl (FileNotFoundError csv_data)
   \<and> csv_data \<in> set (inputs_of Step_consolidate)"
proof -
  have py: "python_callable Step_consolidate" by simp
  have h: "tsv_data \<in> set (inputs_of Step_consolidate) \<and> Map.empty tsv_data = None" by simp
  have r: "run sample_pandas Step_consolidate Map.empty = Inl (FileNotFoundError csv_data)"
    by (simp add: consolidating_def read_csv_def)
  note t = python_step_missing_input[OF py, of tsv_data Map.empty sample_pandas csv_data]
  from t[THEN conjunct1, rule_format, OF h] t[THEN conjunct2, rule_format, OF r] py h r
  show ?thesis by simp
qed

section \<open>Order of execution\<close>

text \<open>
  Claim C7, as stated, fails: the chain that the source declares has seven tasks, not
  six.
\<close>

theorem dag_six_steps_counterexample:
  "distinct dag_chain \<and> length dag_chain = 7 \<and> length dag_chain \<noteq> 6"
  by (simp add: dag_chain_def)

text \<open>
  Claim C7, amended. The pipeline consists of seven steps in a strict linear dependency
  chain: fetch archive, unpack, extract CSV columns, extract TSV columns, extract
  fixed-width columns, consolidate, transform. The first has no upstream task and each
  other one has exactly its predecessor in the chain as upstream task; and in every
  execution, when a step is started, its predecessor, and every step before that in
  the chain, has completed successfully earlier.
\<close>

theorem dag_linear_order:
  "distinct dag_chain \<and> length dag_chain = 7
   \<and> upstream (dag_chain ! 0) = []
   \<and> (\<forall>k<6. upstream (dag_chain ! Suc k) = [dag_chain ! k])
   \<and> (execution es \<and> j < length es \<and> es ! j = Start (dag_chain ! Suc k) \<and> k < 6 \<and> m \<le> k
        \<longrightarrow> (\<exists>i<j. es ! i = Success (dag_chain ! m)))"
proof (intro conjI)
  show "distinct dag_chain" "length dag_chain = 7" by (simp_all add: dag_chain_def)
  show "upstream (dag_chain ! 0) = []" by (simp add: dag_chain_def upstream_simps)
  show "\<forall>k<6. upstream (dag_chain ! Suc k) = [dag_chain ! k]"
    using upstream_chain by blast
  show "execution es \<and> j < length es \<and> es ! j = Start (dag_chain ! Suc k) \<and> k < 6 \<and> m \<le> k
        \<longrightarrow> (\<exists>i<j. es ! i = Success (dag_chain ! m))"
    using earlier_succeeded[of es k j m] by blast
qed

theorem dag_linear_order_witness:
  "execution sample_trace \<and> sample_trace ! 6 = Start Extract_csv
   \<and> upstream Extract_csv = [Unzip]
   \<and> (\<exists>i<6. sample_trace ! i = Success Unzip)
   \<and> (\<exists>i<6. sample_trace ! i = Success Download)"
proof -
  have e: "execution sample_trace"
    by (simp add: sample_trace_def execution_def upstream_simps)
  have c: "dag_chain ! Suc 1 = Extract_csv" "dag_chain ! 1 = Unzip" "dag_chain ! 0 = Download"
    by (simp_all add: dag_chain_def)
  have s: "sample_trace ! 6 = Start (dag_chain ! Suc 1)"
    by (simp add: sample_trace_def dag_chain_def)
  have l: "6 < length sample_trace" by (simp add: sample_trace_def)
  note t = dag_linear_order[of sample_trace 6 1]
  note ord = t[THEN conjunct2, THEN conjunct2, THEN conjunct2, THEN conjunct2, THEN mp]
  have h1: "execution sample_trace \<and> 6 < length sample_trace
      \<and> sample_trace ! 6 = Start (dag_chain ! Suc 1) \<and> (1::nat) < 6 \<and> (1::nat) \<le> 1"
    using e l s by simp
  have h0: "execution sample_trace \<and> 6 < length sample_trace
      \<and> sample_trace ! 6 = Start (dag_chain ! Suc 1) \<and> (1::nat) < 6 \<and> (0::nat) \<le> 1"
    using e l s by simp
  have "\<exists>i<6. sample_trace ! i = Success Unzip"
    using ord[of 1, OF h1] unfolding c .
  moreover have "\<exists>i<6. sample_trace ! i = Success Download"
    using ord[of 0, OF h0] unfolding c .
  moreover have "upstream Extract_csv = [Unzip]"
    using t[of 0, THEN conjunct2, THEN conjunct2, THEN conjunct2, THEN conjunct1,
        rule_format, of 1]
    unfolding c by simp
  moreover have "sample_trace ! 6 = Start Extract_csv"
    using s unfolding c .
  ultimately show ?thesis using e by blast
qed

end
